theory Spec2Isabelle
  imports Complex_Main "HOL-Library.Word"
begin

section \<open>Numbers of the source\<close>

text \<open>
  The miner (\<^verbatim>\<open>src/config.ts\<close>) computes money in \<^verbatim>\<open>bigint\<close> (wei) and
  everything shown in USD, gwei or percent in \<^verbatim>\<open>number\<close>. A \<^verbatim>\<open>bigint\<close> is an
  \<^typ>\<open>int\<close>. A \<^verbatim>\<open>number\<close> is read as the exact real number it denotes
  (\<^typ>\<open>real\<close>): the rounding of IEEE doubles is not part of the model, the rounding the
  code asks for (\<^verbatim>\<open>Math.floor\<close>, \<^verbatim>\<open>toFixed(6)\<close>) is.
\<close>

definition bigint_div :: "int \<Rightarrow> int \<Rightarrow> int" where
  \<comment> \<open>\<^verbatim>\<open>a / b\<close> on bigints truncates toward zero (the divisors of the source are never 0)\<close>
  "bigint_div a b = sgn a * sgn b * (\<bar>a\<bar> div \<bar>b\<bar>)"

section \<open>Spend-cap resolution (\<^verbatim>\<open>main\<close>, config.ts 1262-1300)\<close>

datatype cap_error = NoCapConfigured | CapExceedsBalance

definition leaveBuffer :: "int \<Rightarrow> int" where
  \<comment> \<open>\<^verbatim>\<open>const buffer = balance / 100n; balance > buffer ? balance - buffer : balance\<close>\<close>
  "leaveBuffer balance =
     (let buffer = bigint_div balance 100
      in if balance > buffer then balance - buffer else balance)"

definition capFromConfig :: "real option \<Rightarrow> int option \<Rightarrow> int \<Rightarrow> cap_error + int" where
  \<comment> \<open>lines 1269-1283: explicit amount, else target transaction count, else give up\<close>
  "capFromConfig AUTO_SPEND_CAP_ETH AUTO_TARGET_TXS estimatedEthBurn =
     (let capEth = (case AUTO_SPEND_CAP_ETH of None \<Rightarrow> 0 | Some c \<Rightarrow> c)
      in if capEth \<le> 0 then
           (case AUTO_TARGET_TXS of
              None \<Rightarrow> Inl NoCapConfigured
            | Some txs \<Rightarrow>
                if txs > 0 then
                  (let buffered = bigint_div (estimatedEthBurn * 11) 10
                   in Inr (buffered * txs))
                else Inl NoCapConfigured)
         else Inr \<lfloor>capEth * 10 ^ 18\<rfloor>)"

definition resolveSpendCap ::
  "string \<Rightarrow> int \<Rightarrow> real option \<Rightarrow> int option \<Rightarrow> int \<Rightarrow> cap_error + int" where
  "resolveSpendCap AUTO_SPEND_MODE balance AUTO_SPEND_CAP_ETH AUTO_TARGET_TXS estimatedEthBurn =
     (if AUTO_SPEND_MODE = ''all'' then Inr (leaveBuffer balance)
      else
        (case capFromConfig AUTO_SPEND_CAP_ETH AUTO_TARGET_TXS estimatedEthBurn of
           Inl e \<Rightarrow> Inl e
         | Inr spendCap \<Rightarrow>
             if spendCap > balance then Inl CapExceedsBalance
             else
               (let minCap = bigint_div (estimatedEthBurn * 11) 10
                in if spendCap < minCap then
                     (if minCap > balance then Inr (leaveBuffer balance) else Inr minCap)
                   else Inr spendCap)))"

section \<open>Cost estimator and size ranker (config.ts 327-353, 465-545)\<close>

type_synonym byte = "8 word"

datatype failure = RpcFailure | RangeError

text \<open>
  What the chain answers to the two reads of one estimate: the latest block's
  \<^verbatim>\<open>baseFeePerGas\<close> (absent on a chain without a fee market) and the FCT mint rate.
\<close>

record chain_view =
  baseFeePerGas :: "int option"
  fctMintRate :: int

definition FACETMINE :: "byte list" where
  \<comment> \<open>\<^verbatim>\<open>encoder.encode("FACETMINE")\<close>\<close>
  "FACETMINE = [70, 65, 67, 69, 84, 77, 73, 78, 69]"

definition createMineBoostData :: "nat \<Rightarrow> byte list" where
  "createMineBoostData sizeInBytes =
     map (\<lambda>i. FACETMINE ! (i mod length FACETMINE)) [0..<sizeInBytes]"

fun countBytes :: "byte list \<Rightarrow> int \<times> int \<Rightarrow> int \<times> int" where
  "countBytes [] (zeroBytes, nonZeroBytes) = (zeroBytes, nonZeroBytes)"
| "countBytes (b # data) (zeroBytes, nonZeroBytes) =
     (if b = 0 then countBytes data (zeroBytes + 1, nonZeroBytes)
      else countBytes data (zeroBytes, nonZeroBytes + 1))"

definition calculateDataGas :: "byte list \<Rightarrow> int" where
  "calculateDataGas data =
     (case countBytes data (0, 0) of
        (zeroBytes, nonZeroBytes) \<Rightarrow> zeroBytes * 10 + nonZeroBytes * 40)"

definition baseExecutionGas :: int where
  "baseExecutionGas = 21000"

definition overheadBytes :: int where
  "overheadBytes = 160"

text \<open>
  \<^verbatim>\<open>calculateInputGasCost\<close> belongs to the Facet SDK, not to this repository: it is the
  parameter \<open>G\<close> of every function that calls it. The theorems that need numbers
  instantiate it with the repository's own schedule \<^const>\<open>calculateDataGas\<close>.
\<close>

definition estimatedInputCostGas :: "(byte list \<Rightarrow> int) \<Rightarrow> int \<Rightarrow> int" where
  \<comment> \<open>\<^verbatim>\<open>calculateInputGasCost(new Uint8Array(mineBoostSize).fill(70)) + baseExecutionGas\<close>\<close>
  "estimatedInputCostGas G customSize =
     G (replicate (nat (customSize - overheadBytes)) 70) + baseExecutionGas"

definition efficiencyOfSize :: "(byte list \<Rightarrow> int) \<Rightarrow> int \<Rightarrow> real" where
  "efficiencyOfSize G customSize =
     of_int (estimatedInputCostGas G customSize - baseExecutionGas)
       / of_int (estimatedInputCostGas G customSize) * 100"

definition adjustBaseFee :: "real \<Rightarrow> int \<Rightarrow> int" where
  \<comment> \<open>\<^verbatim>\<open>BigInt(Math.floor(Number(baseFee) * gasPriceMultiplier))\<close>\<close>
  "adjustBaseFee gasPriceMultiplier fee = \<lfloor>of_int fee * gasPriceMultiplier\<rfloor>"

record Estimates =
  sizeBytes :: int
  estimatedEthBurn :: int
  fctMintAmount :: int
  ethPerFct :: int
  costPerFctUsd :: real
  efficiencyPercent :: real
  baseFee :: int
  adjustedBaseFee :: int

record SizeEstimate = Estimates +
  kb :: int

definition getEstimatesForSizeKb ::
  "(byte list \<Rightarrow> int) \<Rightarrow> real \<Rightarrow> real \<Rightarrow> chain_view \<Rightarrow> real \<Rightarrow> Estimates" where
  "getEstimatesForSizeKb G gasPriceMultiplier ethPriceUsd view kb' =
     (let customKb = min (max \<lfloor>kb'\<rfloor> 1) 100;
          customSize = customKb * 1024;
          fee = (case baseFeePerGas view of None \<Rightarrow> 0 | Some b \<Rightarrow> b);
          adjusted = adjustBaseFee gasPriceMultiplier fee;
          gas = estimatedInputCostGas G customSize;
          burn = gas * adjusted;
          inputCostWei = (gas - baseExecutionGas) * fee;
          minted = inputCostWei * fctMintRate view;
          perFct = (if minted > 0 then bigint_div (burn * 10 ^ 18) minted else 0)
      in \<lparr> sizeBytes = customSize,
           estimatedEthBurn = burn,
           fctMintAmount = minted,
           ethPerFct = perFct,
           costPerFctUsd = of_int perFct / 10 ^ 18 * ethPriceUsd,
           efficiencyPercent = efficiencyOfSize G customSize,
           baseFee = fee,
           adjustedBaseFee = adjusted \<rparr>)"

record pick_opts =
  maxCostPerFctUsd :: "real option"
  minEfficiencyPercent :: "real option"
  minKb :: "int option"
  maxKb :: "int option"

definition AUTO_SIZE_STEP_KB :: int where
  "AUTO_SIZE_STEP_KB = 25"

function candidatesFrom :: "int \<Rightarrow> int \<Rightarrow> int list" where
  \<comment> \<open>\<^verbatim>\<open>for (let kb = minKb; kb <= maxKb; kb += AUTO_SIZE_STEP_KB) candidates.push(kb)\<close>\<close>
  "candidatesFrom k hi =
     (if k \<le> hi then k # candidatesFrom (k + AUTO_SIZE_STEP_KB) hi else [])"
  by pat_completeness auto
termination
  by (relation "measure (\<lambda>(k, hi). nat (hi - k + 1))") (auto simp: AUTO_SIZE_STEP_KB_def)

definition meetsCost :: "pick_opts \<Rightarrow> 'a Estimates_scheme \<Rightarrow> bool" where
  "meetsCost opts est =
     (case maxCostPerFctUsd opts of None \<Rightarrow> True | Some c \<Rightarrow> costPerFctUsd est \<le> c)"

definition meetsEff :: "pick_opts \<Rightarrow> 'a Estimates_scheme \<Rightarrow> bool" where
  "meetsEff opts est =
     (case minEfficiencyPercent opts of None \<Rightarrow> True | Some e \<Rightarrow> efficiencyPercent est \<ge> e)"

definition withKb :: "Estimates \<Rightarrow> int \<Rightarrow> SizeEstimate" where
  \<comment> \<open>\<^verbatim>\<open>{ ...est, kb }\<close>\<close>
  "withKb est k = Estimates.extend est (SizeEstimate.fields k)"

definition pickStep :: "pick_opts \<Rightarrow> SizeEstimate option \<Rightarrow> Estimates \<Rightarrow> int \<Rightarrow> SizeEstimate option" where
  \<comment> \<open>the body of the loop over the candidates, lines 523-541\<close>
  "pickStep opts best est k =
     (if meetsCost opts est \<and> meetsEff opts est then
        (case best of
           None \<Rightarrow> Some (withKb est k)
         | Some b \<Rightarrow> if costPerFctUsd est < costPerFctUsd b then Some (withKb est k) else Some b)
      else
        (case best of
           None \<Rightarrow> Some (withKb est k)
         | Some b \<Rightarrow> if costPerFctUsd est < costPerFctUsd b then Some (withKb est k) else Some b))"

text \<open>
  The chain is read afresh for every candidate: \<open>chain i\<close> is what the reads of the
  \<open>i\<close>-th estimate return, \<open>None\<close> when a read is rejected, which ends the whole call
  with that rejection.
\<close>

fun pickLoop ::
  "(byte list \<Rightarrow> int) \<Rightarrow> real \<Rightarrow> real \<Rightarrow> pick_opts \<Rightarrow> (nat \<Rightarrow> chain_view option) \<Rightarrow> nat
     \<Rightarrow> SizeEstimate option \<Rightarrow> int list \<Rightarrow> failure + SizeEstimate option" where
  "pickLoop G m price opts chain i best [] = Inr best"
| "pickLoop G m price opts chain i best (k # ks) =
     (case chain i of
        None \<Rightarrow> Inl RpcFailure
      | Some view \<Rightarrow>
          pickLoop G m price opts chain (Suc i)
            (pickStep opts best (getEstimatesForSizeKb G m price view (of_int k)) k) ks)"

definition pickBestSizeAndEstimates ::
  "(byte list \<Rightarrow> int) \<Rightarrow> real \<Rightarrow> int \<Rightarrow> int \<Rightarrow> real \<Rightarrow> pick_opts \<Rightarrow> (nat \<Rightarrow> chain_view option)
     \<Rightarrow> failure + SizeEstimate option" where
  "pickBestSizeAndEstimates G m AUTO_MIN_SIZE_KB AUTO_MAX_SIZE_KB ethPriceUsd opts chain =
     (let lo = max AUTO_MIN_SIZE_KB (case minKb opts of None \<Rightarrow> AUTO_MIN_SIZE_KB | Some k \<Rightarrow> k);
          hi = min AUTO_MAX_SIZE_KB (case maxKb opts of None \<Rightarrow> AUTO_MAX_SIZE_KB | Some k \<Rightarrow> k)
      in pickLoop G m ethPriceUsd opts chain 0 None (candidatesFrom lo hi))"

subsection \<open>A chain and a constraint used in the concrete run\<close>

definition driftingBaseFee :: "nat \<Rightarrow> chain_view option" where
  \<comment> \<open>Sepolia: a base fee of 7 wei at the first estimate, 8 wei from then on\<close>
  "driftingBaseFee i =
     Some \<lparr> baseFeePerGas = Some (if i = 0 then 7 else 8), fctMintRate = 400000 \<rparr>"

definition efficiencyFloorOnly :: pick_opts where
  \<comment> \<open>\<^verbatim>\<open>MIN_EFFICIENCY_PERCENT=98.5\<close>, no cost ceiling, default size range\<close>
  "efficiencyFloorOnly =
     \<lparr> maxCostPerFctUsd = None, minEfficiencyPercent = Some (985 / 10),
       minKb = None, maxKb = None \<rparr>"

section \<open>Mining session loop (config.ts 547-750)\<close>

definition estimateTransactionCost ::
  "(byte list \<Rightarrow> int) \<Rightarrow> real \<Rightarrow> int \<Rightarrow> chain_view option \<Rightarrow> failure + int" where
  \<comment> \<open>a negative length makes \<^verbatim>\<open>new Uint8Array\<close> throw; so does a rejected block read\<close>
  "estimateTransactionCost G gasPriceMultiplier dataSize block =
     (let mineBoostSize = dataSize - overheadBytes
      in if mineBoostSize < 0 then Inl RangeError
         else
           (case block of
              None \<Rightarrow> Inl RpcFailure
            | Some view \<Rightarrow>
                (let fee = (case baseFeePerGas view of None \<Rightarrow> 0 | Some b \<Rightarrow> b);
                     adjusted = adjustBaseFee gasPriceMultiplier fee;
                     gas = G (createMineBoostData (nat mineBoostSize)) + baseExecutionGas
                 in Inr (gas * adjusted))))"

text \<open>
  What the outside world does during one pass through the loop: the block read by the
  estimate before the submission, the gas-price read that opens
  \<^verbatim>\<open>mineFacetTransactionWithDashboard\<close> (outside its \<^verbatim>\<open>try\<close>), the fate of the
  submission and confirmation (the minted amount read back, or \<open>None\<close> when anything
  inside the \<^verbatim>\<open>try\<close> throws), and the block read by the estimate after confirmation.
\<close>

record iteration =
  blockBefore :: "chain_view option"
  gasPriceRead :: "int option"
  confirmedMint :: "int option"
  blockAfter :: "chain_view option"

datatype mine_result = Threw | ReturnedNull | Mined int int

definition mineFacetTransactionWithDashboard ::
  "(byte list \<Rightarrow> int) \<Rightarrow> real \<Rightarrow> int \<Rightarrow> iteration \<Rightarrow> mine_result" where
  "mineFacetTransactionWithDashboard G gasPriceMultiplier dataSize world =
     (let actualDataSize = (if dataSize = 0 then 100 * 1024 else dataSize)
      in if actualDataSize - overheadBytes < 0 then Threw
         else
           (case gasPriceRead world of
              None \<Rightarrow> Threw
            | Some currentGasPrice \<Rightarrow>
                (case confirmedMint world of
                   None \<Rightarrow> ReturnedNull
                 | Some actualFctMinted \<Rightarrow>
                     (case estimateTransactionCost G gasPriceMultiplier dataSize (blockAfter world) of
                        Inl e \<Rightarrow> ReturnedNull
                      | Inr actualEthBurned \<Rightarrow> Mined actualEthBurned actualFctMinted))))"

record totals =
  totalSpent :: int
  totalFctMinted :: int
  transactionCount :: nat

text \<open>One entry per call of \<^verbatim>\<open>mineFacetTransactionWithDashboard\<close>, written when it is made.\<close>

record submission =
  inIteration :: nat
  spentBefore :: int
  estimatedCost :: int

datatype loop_exit =
    BudgetSpent
  | NextTxTooExpensive
  | BudgetReached
  | TxReturnedNull
  | TxThrewStop
  | EstimateThrew failure
  | WorldExhausted

definition logged :: "submission \<Rightarrow> loop_exit \<times> totals \<times> submission list
    \<Rightarrow> loop_exit \<times> totals \<times> submission list" where
  "logged s r = (case r of (x, t, subs) \<Rightarrow> (x, t, s # subs))"

text \<open>
  The \<^verbatim>\<open>while\<close> loop with \<^verbatim>\<open>STOP_ON_TX_FAIL = false\<close> need not end, so it runs
  against a finite list of iterations of the world and reports \<^const>\<open>WorldExhausted\<close>
  when it would start one more pass than the list holds.
\<close>

fun miningLoopFrom ::
  "(byte list \<Rightarrow> int) \<Rightarrow> real \<Rightarrow> bool \<Rightarrow> int \<Rightarrow> int \<Rightarrow> totals \<Rightarrow> iteration list
     \<Rightarrow> loop_exit \<times> totals \<times> submission list" where
  "miningLoopFrom G m STOP_ON_TX_FAIL spendCap dataSize t [] =
     (if totalSpent t < spendCap then (WorldExhausted, t, []) else (BudgetSpent, t, []))"
| "miningLoopFrom G m STOP_ON_TX_FAIL spendCap dataSize t (world # later) =
     (if \<not> totalSpent t < spendCap then (BudgetSpent, t, [])
      else
        (let t1 = t\<lparr>transactionCount := transactionCount t + 1\<rparr>
         in case estimateTransactionCost G m dataSize (blockBefore world) of
              Inl e \<Rightarrow> (EstimateThrew e, t1, [])
            | Inr cost \<Rightarrow>
                if totalSpent t1 + cost > spendCap then (NextTxTooExpensive, t1, [])
                else
                  (let s = \<lparr> inIteration = transactionCount t1,
                             spentBefore = totalSpent t1,
                             estimatedCost = cost \<rparr>
                   in case mineFacetTransactionWithDashboard G m dataSize world of
                        Mined ethSpent fctMinted \<Rightarrow>
                          (let t2 = t1\<lparr>totalSpent := totalSpent t1 + ethSpent,
                                       totalFctMinted := totalFctMinted t1 + fctMinted\<rparr>
                           in if totalSpent t2 + cost > spendCap
                              then (BudgetReached, t2, [s])
                              else logged s
                                (miningLoopFrom G m STOP_ON_TX_FAIL spendCap dataSize t2 later))
                      | ReturnedNull \<Rightarrow> (TxReturnedNull, t1, [s])
                      | Threw \<Rightarrow>
                          if STOP_ON_TX_FAIL then (TxThrewStop, t1, [s])
                          else logged s
                            (miningLoopFrom G m STOP_ON_TX_FAIL spendCap dataSize t1 later))))"

definition miningLoop ::
  "(byte list \<Rightarrow> int) \<Rightarrow> real \<Rightarrow> bool \<Rightarrow> int \<Rightarrow> int \<Rightarrow> iteration list
     \<Rightarrow> loop_exit \<times> totals \<times> submission list" where
  "miningLoop G m STOP_ON_TX_FAIL spendCap dataSize world =
     miningLoopFrom G m STOP_ON_TX_FAIL spendCap dataSize
       \<lparr> totalSpent = 0, totalFctMinted = 0, transactionCount = 0 \<rparr> world"

section \<open>Stuck-transaction canceller (cancel-range.ts)\<close>

text \<open>
  Fees are the gwei amounts held in the variables \<^verbatim>\<open>TIP\<close> and \<^verbatim>\<open>MAX\<close>, the
  multiplier is \<^verbatim>\<open>BUMP\<close>. The wallet and the node are outside the repository: what a
  submission and the wait for its receipt come to is given by a function of the nonce
  and the number of the attempt.
\<close>

record js_error =
  shortMessage :: "string option"
  message :: "string option"

definition errorText :: "js_error \<Rightarrow> string" where
  \<comment> \<open>\<^verbatim>\<open>e?.shortMessage || e?.message || ''\<close>: an empty string is falsy\<close>
  "errorText e =
     (case shortMessage e of
        Some s \<Rightarrow> if s \<noteq> [] then s else (case message e of Some t \<Rightarrow> t | None \<Rightarrow> [])
      | None \<Rightarrow> (case message e of Some t \<Rightarrow> t | None \<Rightarrow> []))"

definition lowerChar :: "char \<Rightarrow> char" where
  "lowerChar c =
     (case map_of (zip ''ABCDEFGHIJKLMNOPQRSTUVWXYZ'' ''abcdefghijklmnopqrstuvwxyz'') c of
        Some l \<Rightarrow> l
      | None \<Rightarrow> c)"

definition toLowerCase :: "string \<Rightarrow> string" where
  \<comment> \<open>on the ASCII letters, which is where the six phrases live\<close>
  "toLowerCase s = map lowerChar s"

fun startsWith :: "string \<Rightarrow> string \<Rightarrow> bool" where
  "startsWith s [] = True"
| "startsWith [] (p # ps) = False"
| "startsWith (c # cs) (p # ps) = (c = p \<and> startsWith cs ps)"

fun str_includes :: "string \<Rightarrow> string \<Rightarrow> bool" where
  "str_includes [] p = (p = [])"
| "str_includes (c # cs) p = (startsWith (c # cs) p \<or> str_includes cs p)"

definition saysResolved :: "string \<Rightarrow> bool" where
  "saysResolved msg = (str_includes msg ''nonce too low'' \<or> str_includes msg ''already known'')"

definition saysUnderpriced :: "string \<Rightarrow> bool" where
  "saysUnderpriced msg =
     (str_includes msg ''underpriced'' \<or> str_includes msg ''tip too low'' \<or> str_includes msg ''base fee'')"

definition toFixed6 :: "real \<Rightarrow> real" where
  \<comment> \<open>\<^verbatim>\<open>Number(x.toFixed(6))\<close>: the nearest multiple of \<open>10^-6\<close>, a tie going away from zero\<close>
  "toFixed6 x =
     (if x < 0 then - (of_int \<lfloor>- x * 10 ^ 6 + 1 / 2\<rfloor> / 10 ^ 6)
      else of_int \<lfloor>x * 10 ^ 6 + 1 / 2\<rfloor> / 10 ^ 6)"

record fees =
  TIP_gwei :: real
  MAX_gwei :: real

definition initialFees :: "real option \<Rightarrow> real option \<Rightarrow> fees" where
  \<comment> \<open>lines 15-16: \<^verbatim>\<open>BASE_TIP_GWEI || 30\<close>, \<^verbatim>\<open>BASE_MAX_GWEI || Math.max(TIP*2, 60)\<close>\<close>
  "initialFees BASE_TIP_GWEI BASE_MAX_GWEI =
     (let tip = (case BASE_TIP_GWEI of None \<Rightarrow> 30 | Some t \<Rightarrow> t)
      in \<lparr> TIP_gwei = tip,
           MAX_gwei = (case BASE_MAX_GWEI of None \<Rightarrow> max (tip * 2) 60 | Some x \<Rightarrow> x) \<rparr>)"

definition bumpFees :: "real \<Rightarrow> fees \<Rightarrow> fees" where
  \<comment> \<open>lines 42-43; \<^verbatim>\<open>MAX\<close> is computed from the new \<^verbatim>\<open>TIP\<close>\<close>
  "bumpFees BUMP f =
     (let tip = toFixed6 (TIP_gwei f * BUMP)
      in \<lparr> TIP_gwei = tip, MAX_gwei = toFixed6 (max (MAX_gwei f) tip * BUMP) \<rparr>)"

definition settledFees :: "fees \<Rightarrow> bool" where
  \<comment> \<open>a non-negative tip, and both amounts as \<^verbatim>\<open>toFixed(6)\<close> leaves them: the state after any bump\<close>
  "settledFees f =
     (0 \<le> TIP_gwei f \<and> toFixed6 (TIP_gwei f) = TIP_gwei f \<and> toFixed6 (MAX_gwei f) = MAX_gwei f)"

datatype send_result = Receipt | Rejected js_error

record attempt =
  tryNo :: nat
  atFees :: fees
  answer :: send_result

definition sentTip :: "attempt \<Rightarrow> real" where
  \<comment> \<open>\<^verbatim>\<open>maxPriorityFeePerGas: parseGwei(TIP)\<close>\<close>
  "sentTip a = TIP_gwei (atFees a)"

definition sentMaxFee :: "attempt \<Rightarrow> real" where
  \<comment> \<open>\<^verbatim>\<open>maxFeePerGas: parseGwei(Math.max(MAX, TIP))\<close>\<close>
  "sentMaxFee a = max (MAX_gwei (atFees a)) (TIP_gwei (atFees a))"

datatype nonce_outcome = GotReceipt | AlreadyResolved | LoggedFailure | MaxRetriesReached

definition attempted :: "attempt \<Rightarrow> nonce_outcome \<times> fees \<times> attempt list
    \<Rightarrow> nonce_outcome \<times> fees \<times> attempt list" where
  "attempted a r = (case r of (out, f, tries) \<Rightarrow> (out, f, a # tries))"

function cancelAttempts ::
  "(int \<Rightarrow> nat \<Rightarrow> send_result) \<Rightarrow> real \<Rightarrow> int \<Rightarrow> nat \<Rightarrow> fees
     \<Rightarrow> nonce_outcome \<times> fees \<times> attempt list" where
  \<comment> \<open>\<^verbatim>\<open>for (let i=1;i<=8;i++)\<close> from the value \<open>i\<close> on\<close>
  "cancelAttempts net BUMP nonce i f =
     (if i \<le> 8 then
        (let a = \<lparr> tryNo = i, atFees = f, answer = net nonce i \<rparr>
         in case net nonce i of
              Receipt \<Rightarrow> (GotReceipt, f, [a])
            | Rejected e \<Rightarrow>
                (let msg = toLowerCase (errorText e)
                 in if saysResolved msg then (AlreadyResolved, f, [a])
                    else if saysUnderpriced msg then
                      attempted a (cancelAttempts net BUMP nonce (i + 1) (bumpFees BUMP f))
                    else (LoggedFailure, f, [a])))
      else (MaxRetriesReached, f, []))"
  by pat_completeness auto
termination
  by (relation "measure (\<lambda>(net, BUMP, nonce, i, f). 9 - i)") auto

definition cancelNonce ::
  "(int \<Rightarrow> nat \<Rightarrow> send_result) \<Rightarrow> real \<Rightarrow> int \<Rightarrow> fees \<Rightarrow> nonce_outcome \<times> fees \<times> attempt list" where
  "cancelNonce net BUMP nonce f = cancelAttempts net BUMP nonce 1 f"

record nonce_run =
  forNonce :: int
  startFees :: fees
  endFees :: fees
  outcome :: nonce_outcome
  attempts :: "attempt list"

function sweepFrom ::
  "(int \<Rightarrow> nat \<Rightarrow> send_result) \<Rightarrow> real \<Rightarrow> int \<Rightarrow> int \<Rightarrow> int \<Rightarrow> fees \<Rightarrow> fees \<times> nonce_run list" where
  \<comment> \<open>\<^verbatim>\<open>for (let n=FROM; n<=TO; n++)\<close> from the value \<open>n\<close> on, lines 63-67\<close>
  "sweepFrom net BUMP latest TO n f =
     (if n \<le> TO then
        (if n < latest then sweepFrom net BUMP latest TO (n + 1) f
         else
           (case cancelNonce net BUMP n f of
              (out, f', tries) \<Rightarrow>
                (case sweepFrom net BUMP latest TO (n + 1) f' of
                   (final, runs) \<Rightarrow>
                     (final,
                      \<lparr> forNonce = n, startFees = f, endFees = f', outcome = out,
                        attempts = tries \<rparr> # runs))))
      else (f, []))"
  by pat_completeness auto
termination
  by (relation "measure (\<lambda>(net, BUMP, latest, TO, n, f). nat (TO - n + 1))") auto

datatype config_error = MissingNonceRange

definition cancelRange ::
  "(int \<Rightarrow> nat \<Rightarrow> send_result) \<Rightarrow> real \<Rightarrow> int option \<Rightarrow> int option \<Rightarrow> int \<Rightarrow> fees
     \<Rightarrow> config_error + fees \<times> nonce_run list" where
  \<comment> \<open>\<^verbatim>\<open>main\<close>: both ends of the range must be finite numbers\<close>
  "cancelRange net BUMP FROM TO latest f =
     (case (FROM, TO) of
        (Some a, Some b) \<Rightarrow> Inr (sweepFrom net BUMP latest b a f)
      | _ \<Rightarrow> Inl MissingNonceRange)"

subsection \<open>Answers of the network used in the concrete runs\<close>

definition underpricedError :: js_error where
  "underpricedError =
     \<lparr> shortMessage = Some ''replacement transaction underpriced'', message = None \<rparr>"

definition nonceTooLowError :: js_error where
  "nonceTooLowError = \<lparr> shortMessage = None, message = Some ''Nonce too low'' \<rparr>"

definition underpriced :: send_result where
  "underpriced = Rejected underpricedError"

definition nonceTooLow :: send_result where
  "nonceTooLow = Rejected nonceTooLowError"




definition underpricedTwiceAt10 :: "int \<Rightarrow> nat \<Rightarrow> send_result" where
  "underpricedTwiceAt10 nonce i = (if nonce = 10 \<and> i < 3 then underpriced else Receipt)"

section \<open>Spend-cap theorems\<close>

lemma bigint_div_nonneg: "0 \<le> a \<Longrightarrow> 0 < b \<Longrightarrow> bigint_div a b = a div b"
  by (cases "a = 0") (simp_all add: bigint_div_def)

lemma leaveBuffer_bounds:
  "0 \<le> balance \<Longrightarrow> 0 \<le> leaveBuffer balance \<and> leaveBuffer balance \<le> balance"
  by (auto simp: leaveBuffer_def Let_def bigint_div_nonneg)

lemma leaveBuffer_nonneg_eq: "0 \<le> balance \<Longrightarrow> leaveBuffer balance = balance - balance div 100"
  by (auto simp: leaveBuffer_def Let_def bigint_div_nonneg)

lemma capFromConfig_nonneg:
  "0 \<le> est \<Longrightarrow> capFromConfig capEth targetTxs est = Inr c \<Longrightarrow> 0 \<le> c"
  by (auto simp: capFromConfig_def Let_def bigint_div_nonneg split: option.splits if_splits)

lemma all_mode_affords_one:
  fixes est balance :: int
  assumes "0 \<le> est" and "est * 11 div 10 \<le> balance"
  shows "est \<le> balance - balance div 100"
proof -
  define m where "m = est * 11 div 10"
  define q where "q = balance div 100"
  have m: "11 * est - 9 \<le> 10 * m" and m': "10 * m \<le> 11 * est"
    unfolding m_def by linarith+
  have q: "100 * q \<le> balance" and q': "balance < 100 * q + 100"
    unfolding q_def by linarith+
  have b: "m \<le> balance" using assms(2) by (simp add: m_def)
  show ?thesis
  proof (cases "balance < 100")
    case True
    with q q' assms(1) m b have "q = 0" by linarith
    moreover have "est \<le> m" using m assms(1) by linarith
    ultimately show ?thesis using b by (simp add: q_def)
  next
    case False
    then show ?thesis using m b q assms(1) unfolding q_def [symmetric] by linarith
  qed
qed

text \<open>
  C3, as amended. For a non-negative balance and a non-negative per-transaction estimate,
  every spend-cap resolution that yields a cap yields one with \<open>0 \<le> cap \<le> balance\<close>.
  In both \<^verbatim>\<open>cap\<close> sub-modes, whenever the balance reaches
  \<^verbatim>\<open>minCap = estimatedEthBurn * 11n / 10n\<close>, so does the cap. In mode \<^verbatim>\<open>all\<close> the
  cap is the balance less its hundredth (bigint division); when the balance reaches
  \<^verbatim>\<open>minCap\<close> the cap covers the estimate itself, though not always its 10 percent
  buffer.
\<close>

theorem spend_cap_bounds:
  assumes "0 \<le> balance" and "0 \<le> est"
    and "resolveSpendCap mode balance capEth targetTxs est = Inr cap"
  shows "0 \<le> cap \<and> cap \<le> balance
    \<and> (mode \<noteq> ''all'' \<longrightarrow> est * 11 div 10 \<le> balance \<longrightarrow> est * 11 div 10 \<le> cap)
    \<and> (mode = ''all'' \<longrightarrow> cap = balance - balance div 100)
    \<and> (mode = ''all'' \<longrightarrow> est * 11 div 10 \<le> balance \<longrightarrow> est \<le> cap)"
proof (cases "mode = ''all''")
  case True
  with assms show ?thesis
    using leaveBuffer_bounds [of balance] leaveBuffer_nonneg_eq [of balance]
      all_mode_affords_one [of est balance]
    by (simp add: resolveSpendCap_def)
next
  case False
  from assms(2) have m: "bigint_div (est * 11) 10 = est * 11 div 10"
    by (simp add: bigint_div_nonneg)
  from False assms(3) obtain c where c: "capFromConfig capEth targetTxs est = Inr c"
    by (auto simp: resolveSpendCap_def split: sum.splits)
  then have "0 \<le> c" using assms(2) capFromConfig_nonneg by blast
  with False assms(1,3) c m show ?thesis
    using leaveBuffer_bounds [of balance]
    by (auto simp: resolveSpendCap_def Let_def split: if_splits)
qed

theorem spend_cap_bounds_witness:
  "resolveSpendCap ''cap'' 1000 (Some (5 / 10 ^ 18)) None 100 = Inr 110
   \<and> (0::int) \<le> 110 \<and> (110::int) \<le> 1000"
  using spend_cap_bounds [of 1000 100 "''cap''" "Some (5 / 10 ^ 18)" None 110]
  by (simp add: resolveSpendCap_def capFromConfig_def Let_def bigint_div_def)

text \<open>
  C3 as stated fails. In mode \<^verbatim>\<open>all\<close> a balance of 0.022 ETH affords one buffered
  transaction of 0.02 ETH, yet the cap is 0.02178 ETH. In mode \<^verbatim>\<open>cap\<close> the floor is
  the bigint quotient, one wei short of \<open>perTxEstimate \<times> 1.1\<close> when that is no integer.
\<close>

theorem spend_cap_counterexample:
  "resolveSpendCap ''all'' 22000000000000000 None None 20000000000000000 = Inr 21780000000000000
   \<and> (20000000000000000::real) * 11 / 10 \<le> 22000000000000000
   \<and> \<not> (20000000000000000::real) * 11 / 10 \<le> 21780000000000000
   \<and> resolveSpendCap ''cap'' (10 ^ 18) None (Some 1) 20000000000000001 = Inr 22000000000000001
   \<and> \<not> (20000000000000001::real) * 11 / 10 \<le> 22000000000000001"
  by (simp add: resolveSpendCap_def capFromConfig_def leaveBuffer_def Let_def bigint_div_def)



text \<open>
  C5, as amended. In a spend mode other than \<^verbatim>\<open>all\<close>, with no positive
  \<^verbatim>\<open>SPEND_CAP_ETH\<close> and a positive \<^verbatim>\<open>AUTO_TARGET_TXS\<close>, the cap is the
  per-transaction estimate times 11, divided by 10 with the remainder dropped, times the
  count, provided that this does not exceed the balance; otherwise the resolution ends
  with the cap-exceeds-balance error. An estimate of 0.02 ETH and 5 transactions give
  0.11 ETH.
\<close>

theorem target_txs_cap:
  assumes "mode \<noteq> ''all''" and "capEth = None \<or> (\<exists>c. capEth = Some c \<and> c \<le> 0)"
    and "0 < txs" and "0 \<le> est"
  shows "resolveSpendCap mode balance capEth (Some txs) est =
     (if balance < (est * 11 div 10) * txs then Inl CapExceedsBalance
      else Inr ((est * 11 div 10) * txs))"
proof -
  from assms(4) have m: "bigint_div (est * 11) 10 = est * 11 div 10"
    by (simp add: bigint_div_nonneg)
  have c: "capFromConfig capEth (Some txs) est = Inr ((est * 11 div 10) * txs)"
    using assms(2,3) m by (auto simp: capFromConfig_def Let_def)
  have "0 \<le> est * 11 div 10" using assms(4) by simp
  then have "est * 11 div 10 \<le> (est * 11 div 10) * txs"
    using assms(3) by (simp add: mult_le_cancel_left1)
  with assms(1) c m show ?thesis
    by (simp add: resolveSpendCap_def Let_def)
qed

theorem target_txs_cap_witness:
  "resolveSpendCap ''cap'' (10 ^ 18) None (Some 5) (2 * 10 ^ 16) = Inr (11 * 10 ^ 16)
   \<and> resolveSpendCap ''cap'' (10 ^ 17) None (Some 5) (2 * 10 ^ 16) = Inl CapExceedsBalance"
  using target_txs_cap [of "''cap''" None 5 "2 * 10 ^ 16" "10 ^ 18"]
    target_txs_cap [of "''cap''" None 5 "2 * 10 ^ 16" "10 ^ 17"]
  by simp

text \<open>
  C5 as stated fails. The code drops the remainder where the claim rounds up: with an
  estimate of 0.020000000000000001 ETH and 5 transactions the cap is
  110000000000000005 wei, the claim's \<open>\<lceil>perTxEstimate \<times> 1.1\<rceil> \<times> 5\<close> is 110000000000000010.
  And the cap so computed is checked against the balance: with the 0.02 ETH and 5
  transactions of the scenario and a balance of 0.1 ETH no cap is resolved at all.
\<close>

theorem target_txs_cap_counterexample:
  "resolveSpendCap ''cap'' (10 ^ 18) None (Some 5) 20000000000000001 = Inr 110000000000000005
   \<and> \<lceil>(20000000000000001::real) * 11 / 10\<rceil> * 5 = (110000000000000010::int)
   \<and> resolveSpendCap ''cap'' (10 ^ 17) None (Some 5) (2 * 10 ^ 16) = Inl CapExceedsBalance"
proof -
  have "\<lceil>(220000000000000011::real) / 10\<rceil> = 22000000000000002"
    by (rule ceiling_unique) simp_all
  then show ?thesis
    by (simp add: resolveSpendCap_def capFromConfig_def Let_def bigint_div_def)
qed

section \<open>Estimator and ranker theorems\<close>

declare candidatesFrom.simps [simp del]

lemma countBytes_nonzero:
  "\<forall>b \<in> set data. b \<noteq> 0 \<Longrightarrow> countBytes data (z, n) = (z, n + int (length data))"
  by (induction data arbitrary: n) auto

lemma calculateDataGas_fill70: "calculateDataGas (replicate n 70) = 40 * int n"
  by (simp add: calculateDataGas_def countBytes_nonzero)

lemma pickStep_ignores_constraints: "pickStep opts best est k = pickStep opts' best est k"
  by (simp add: pickStep_def split: option.splits)

lemma pickLoop_ignores_constraints:
  "pickLoop G m price opts chain i best ks = pickLoop G m price opts' chain i best ks"
proof (induction ks arbitrary: i best)
  case Nil
  show ?case by simp
next
  case (Cons k ks)
  show ?case
  proof (cases "chain i")
    case None
    then show ?thesis by simp
  next
    case (Some view)
    have "pickStep opts best (getEstimatesForSizeKb G m price view (of_int k)) k
        = pickStep opts' best (getEstimatesForSizeKb G m price view (of_int k)) k"
      by (rule pickStep_ignores_constraints)
    with Some Cons.IH show ?thesis by simp
  qed
qed

lemma ranker_ignores_constraints:
  "pickBestSizeAndEstimates G m lo hi price
      \<lparr> maxCostPerFctUsd = c, minEfficiencyPercent = e, minKb = a, maxKb = b \<rparr> chain
   = pickBestSizeAndEstimates G m lo hi price
      \<lparr> maxCostPerFctUsd = c', minEfficiencyPercent = e', minKb = a, maxKb = b \<rparr> chain"
  unfolding pickBestSizeAndEstimates_def Let_def pick_opts.simps
  by (rule pickLoop_ignores_constraints)

lemma candidates_default: "candidatesFrom 25 100 = [25, 50, 75, 100]"
  by (simp add: candidatesFrom.simps AUTO_SIZE_STEP_KB_def)

lemmas estimate_defs =
  getEstimatesForSizeKb_def Let_def estimatedInputCostGas_def efficiencyOfSize_def
  adjustBaseFee_def overheadBytes_def baseExecutionGas_def calculateDataGas_fill70 bigint_div_def

text \<open>
  C1 does not hold of the code. Every branch of the loop body replaces \<open>best\<close> under the
  same test (no \<open>best\<close> yet, or a strictly lower cost per FCT), so the cost ceiling and
  the efficiency floor never influence the result (\<open>ranker_ignores_constraints\<close>). The run
  below is on Sepolia with
  the default range 25..100 KB, an efficiency floor of 98.5 percent and no cost ceiling:
  the base fee is 7 wei when the 25 KB candidate is estimated and 8 wei afterwards. The
  50 KB candidate meets both constraints, the call returns the 25 KB candidate, which is
  below the efficiency floor.
\<close>

theorem ranker_returns_unqualified:
  "pickBestSizeAndEstimates calculateDataGas (3 / 2) 25 100 3500 efficiencyFloorOnly driftingBaseFee
    = Inr (Some (withKb (getEstimatesForSizeKb calculateDataGas (3 / 2) 3500
                   \<lparr> baseFeePerGas = Some 7, fctMintRate = 400000 \<rparr> 25) 25))
   \<and> efficiencyPercent (getEstimatesForSizeKb calculateDataGas (3 / 2) 3500
          \<lparr> baseFeePerGas = Some 7, fctMintRate = 400000 \<rparr> 25) = 169600 / 1731
   \<and> \<not> meetsEff efficiencyFloorOnly
          (getEstimatesForSizeKb calculateDataGas (3 / 2) 3500
             \<lparr> baseFeePerGas = Some 7, fctMintRate = 400000 \<rparr> 25)
   \<and> meetsEff efficiencyFloorOnly
          (getEstimatesForSizeKb calculateDataGas (3 / 2) 3500
             \<lparr> baseFeePerGas = Some 8, fctMintRate = 400000 \<rparr> 50)
   \<and> meetsCost efficiencyFloorOnly
          (getEstimatesForSizeKb calculateDataGas (3 / 2) 3500
             \<lparr> baseFeePerGas = Some 8, fctMintRate = 400000 \<rparr> 50)"
  by (simp add: pickBestSizeAndEstimates_def candidates_default efficiencyFloorOnly_def
      driftingBaseFee_def pickStep_def meetsEff_def meetsCost_def withKb_def estimate_defs
      Estimates.extend_def SizeEstimate.fields_def)




section \<open>Mining-loop theorems\<close>

lemma FACETMINE_nonzero: "0 \<notin> set FACETMINE"
  by (simp add: FACETMINE_def)

lemma calculateDataGas_mineBoost: "calculateDataGas (createMineBoostData n) = 40 * int n"
proof -
  have "b \<noteq> 0" if "b \<in> set (createMineBoostData n)" for b
  proof -
    from that obtain i where "b = FACETMINE ! (i mod length FACETMINE)"
      by (auto simp: createMineBoostData_def)
    moreover have "i mod length FACETMINE < length FACETMINE"
      by (simp add: FACETMINE_def)
    ultimately have "b \<in> set FACETMINE" by (metis nth_mem)
    with FACETMINE_nonzero show ?thesis by auto
  qed
  then have "countBytes (createMineBoostData n) (0, 0) = (0, int (length (createMineBoostData n)))"
    using countBytes_nonzero [of "createMineBoostData n" 0 0] by simp
  then show ?thesis
    by (simp add: calculateDataGas_def createMineBoostData_def)
qed

lemma miningLoopFrom_Cons_cases:
  assumes "miningLoopFrom G m stop spendCap dataSize t (w # later) = (x, t', subs)"
    and "s \<in> set subs"
  obtains (now) cost where
      "estimateTransactionCost G m dataSize (blockBefore w) = Inr cost"
      "totalSpent t + cost \<le> spendCap"
      "s = \<lparr> inIteration = Suc (transactionCount t), spentBefore = totalSpent t,
             estimatedCost = cost \<rparr>"
  | (after) t2 subs' where
      "miningLoopFrom G m stop spendCap dataSize t2 later = (x, t', subs')"
      "s \<in> set subs'"
      "transactionCount t2 = Suc (transactionCount t)"
  using assms
  by (auto simp: Let_def logged_def
      split: if_splits sum.splits mine_result.splits prod.splits)

lemma miningLoopFrom_submissions:
  assumes "miningLoopFrom G m stop spendCap dataSize t world = (x, t', subs)"
    and "s \<in> set subs"
  shows "spentBefore s + estimatedCost s \<le> spendCap
    \<and> transactionCount t < inIteration s
    \<and> inIteration s \<le> transactionCount t + length world
    \<and> estimateTransactionCost G m dataSize
         (blockBefore (world ! (inIteration s - transactionCount t - 1))) = Inr (estimatedCost s)"
  using assms
proof (induction world arbitrary: t x t' subs)
  case Nil
  then show ?case by (simp split: if_splits)
next
  case (Cons w later)
  from Cons.prems show ?case
  proof (cases rule: miningLoopFrom_Cons_cases)
    case (now cost)
    then show ?thesis by simp
  next
    case (after t2 subs')
    from Cons.IH [OF after(1,2)] after(3) show ?thesis
      by (simp add: nth_Cons')
  qed
qed

text \<open>
  C2. \<open>subs\<close> lists the calls of \<^verbatim>\<open>mineFacetTransactionWithDashboard\<close> of a run of
  the loop, each with the pass of the loop it was made in, the total spent at that moment
  and the estimate the budget check used. For every one of them the total spent plus the
  estimate is at most the spend cap, and the estimate is the one computed from the block
  read in that same pass of the loop.
\<close>

theorem mining_loop_budget_guard:
  assumes "miningLoop G m stop spendCap dataSize world = (x, t', subs)"
    and "s \<in> set subs"
  shows "spentBefore s + estimatedCost s \<le> spendCap
    \<and> 1 \<le> inIteration s \<and> inIteration s \<le> length world
    \<and> estimateTransactionCost G m dataSize (blockBefore (world ! (inIteration s - 1)))
        = Inr (estimatedCost s)"
  using miningLoopFrom_submissions [OF assms [unfolded miningLoop_def]]
  by simp

lemmas loop_defs =
  miningLoop_def estimateTransactionCost_def mineFacetTransactionWithDashboard_def
  logged_def Let_def adjustBaseFee_def overheadBytes_def baseExecutionGas_def
  calculateDataGas_mineBoost

theorem mining_loop_budget_guard_witness:
  "miningLoop calculateDataGas (3 / 2) True 2000000 1024
     [ \<lparr> blockBefore = Some \<lparr> baseFeePerGas = Some 10, fctMintRate = 400000 \<rparr>,
         gasPriceRead = Some 10, confirmedMint = Some 5,
         blockAfter = Some \<lparr> baseFeePerGas = Some 10, fctMintRate = 400000 \<rparr> \<rparr>,
       \<lparr> blockBefore = Some \<lparr> baseFeePerGas = Some 12, fctMintRate = 400000 \<rparr>,
         gasPriceRead = Some 12, confirmedMint = Some 6,
         blockAfter = Some \<lparr> baseFeePerGas = Some 12, fctMintRate = 400000 \<rparr> \<rparr> ]
   = (BudgetReached,
      \<lparr> totalSpent = 1833480, totalFctMinted = 11, transactionCount = 2 \<rparr>,
      [ \<lparr> inIteration = 1, spentBefore = 0, estimatedCost = 833400 \<rparr>,
        \<lparr> inIteration = 2, spentBefore = 833400, estimatedCost = 1000080 \<rparr> ])
   \<and> (833400::int) + 1000080 \<le> 2000000"
proof -
  have run: "miningLoop calculateDataGas (3 / 2) True 2000000 1024
     [ \<lparr> blockBefore = Some \<lparr> baseFeePerGas = Some 10, fctMintRate = 400000 \<rparr>,
         gasPriceRead = Some 10, confirmedMint = Some 5,
         blockAfter = Some \<lparr> baseFeePerGas = Some 10, fctMintRate = 400000 \<rparr> \<rparr>,
       \<lparr> blockBefore = Some \<lparr> baseFeePerGas = Some 12, fctMintRate = 400000 \<rparr>,
         gasPriceRead = Some 12, confirmedMint = Some 6,
         blockAfter = Some \<lparr> baseFeePerGas = Some 12, fctMintRate = 400000 \<rparr> \<rparr> ]
   = (BudgetReached,
      \<lparr> totalSpent = 1833480, totalFctMinted = 11, transactionCount = 2 \<rparr>,
      [ \<lparr> inIteration = 1, spentBefore = 0, estimatedCost = 833400 \<rparr>,
        \<lparr> inIteration = 2, spentBefore = 833400, estimatedCost = 1000080 \<rparr> ])"
    by (simp add: loop_defs)
  from mining_loop_budget_guard [OF run,
      of "\<lparr> inIteration = 2, spentBefore = 833400, estimatedCost = 1000080 \<rparr>"]
  have "(833400::int) + 1000080 \<le> 2000000" by simp
  with run show ?thesis by simp
qed

text \<open>
  C6 does not hold of the code. A submission or confirmation that fails inside
  \<^verbatim>\<open>mineFacetTransactionWithDashboard\<close> is caught there and comes back as
  \<^verbatim>\<open>null\<close>; the loop marks the transaction failed and breaks without looking at
  \<^verbatim>\<open>STOP_ON_TX_FAIL\<close>. Only an exception that escapes the call reaches the branch
  that consults the flag.
\<close>

lemma null_result_stops_whatever_the_flag:
  assumes "totalSpent t < spendCap"
    and "estimateTransactionCost G m dataSize (blockBefore w) = Inr cost"
    and "totalSpent t + cost \<le> spendCap"
    and "mineFacetTransactionWithDashboard G m dataSize w = ReturnedNull"
  shows "miningLoopFrom G m stop spendCap dataSize t (w # later)
    = (TxReturnedNull, t\<lparr>transactionCount := transactionCount t + 1\<rparr>,
       [\<lparr> inIteration = transactionCount t + 1, spentBefore = totalSpent t,
          estimatedCost = cost \<rparr>])"
  using assms by (simp add: Let_def)

text \<open>
  C6 at a concrete input, with \<^verbatim>\<open>STOP_ON_TX_FAIL\<close> unset and a budget for two
  transactions. When the first submission is rejected the loop stops after one pass.
  When instead the gas-price read before the first submission is rejected, the loop goes
  on to the second pass.
\<close>

theorem failed_submission_stops_despite_flag:
  "miningLoop calculateDataGas (3 / 2) False 2000000 1024
     [ \<lparr> blockBefore = Some \<lparr> baseFeePerGas = Some 10, fctMintRate = 400000 \<rparr>,
         gasPriceRead = Some 10, confirmedMint = None,
         blockAfter = Some \<lparr> baseFeePerGas = Some 10, fctMintRate = 400000 \<rparr> \<rparr>,
       \<lparr> blockBefore = Some \<lparr> baseFeePerGas = Some 10, fctMintRate = 400000 \<rparr>,
         gasPriceRead = Some 10, confirmedMint = Some 6,
         blockAfter = Some \<lparr> baseFeePerGas = Some 10, fctMintRate = 400000 \<rparr> \<rparr> ]
   = (TxReturnedNull,
      \<lparr> totalSpent = 0, totalFctMinted = 0, transactionCount = 1 \<rparr>,
      [ \<lparr> inIteration = 1, spentBefore = 0, estimatedCost = 833400 \<rparr> ])
   \<and> miningLoop calculateDataGas (3 / 2) False 2000000 1024
     [ \<lparr> blockBefore = Some \<lparr> baseFeePerGas = Some 10, fctMintRate = 400000 \<rparr>,
         gasPriceRead = None, confirmedMint = None,
         blockAfter = Some \<lparr> baseFeePerGas = Some 10, fctMintRate = 400000 \<rparr> \<rparr>,
       \<lparr> blockBefore = Some \<lparr> baseFeePerGas = Some 10, fctMintRate = 400000 \<rparr>,
         gasPriceRead = Some 10, confirmedMint = Some 6,
         blockAfter = Some \<lparr> baseFeePerGas = Some 10, fctMintRate = 400000 \<rparr> \<rparr> ]
   = (WorldExhausted,
      \<lparr> totalSpent = 833400, totalFctMinted = 6, transactionCount = 2 \<rparr>,
      [ \<lparr> inIteration = 1, spentBefore = 0, estimatedCost = 833400 \<rparr>,
        \<lparr> inIteration = 2, spentBefore = 0, estimatedCost = 833400 \<rparr> ])"
  by (simp add: loop_defs)

section \<open>Canceller theorems\<close>

declare cancelAttempts.simps [simp del]
declare sweepFrom.simps [simp del]

lemma cancelAttempts_cases:
  assumes "cancelAttempts net BUMP nonce i f = (out, final, tries)"
  obtains (past) "8 < i" "out = MaxRetriesReached" "final = f" "tries = []"
  | (receipt) "i \<le> 8" "net nonce i = Receipt" "out = GotReceipt" "final = f"
      "tries = [\<lparr> tryNo = i, atFees = f, answer = net nonce i \<rparr>]"
  | (resolved) e where "i \<le> 8" "net nonce i = Rejected e"
      "saysResolved (toLowerCase (errorText e))"
      "out = AlreadyResolved" "final = f"
      "tries = [\<lparr> tryNo = i, atFees = f, answer = net nonce i \<rparr>]"
  | (retry) e rest where "i \<le> 8" "net nonce i = Rejected e"
      "\<not> saysResolved (toLowerCase (errorText e))"
      "saysUnderpriced (toLowerCase (errorText e))"
      "cancelAttempts net BUMP nonce (i + 1) (bumpFees BUMP f) = (out, final, rest)"
      "tries = \<lparr> tryNo = i, atFees = f, answer = net nonce i \<rparr> # rest"
  | (failure) e where "i \<le> 8" "net nonce i = Rejected e"
      "\<not> saysResolved (toLowerCase (errorText e))"
      "\<not> saysUnderpriced (toLowerCase (errorText e))"
      "out = LoggedFailure" "final = f"
      "tries = [\<lparr> tryNo = i, atFees = f, answer = net nonce i \<rparr>]"
  using assms
  by (subst (asm) cancelAttempts.simps)
    (auto simp: Let_def attempted_def split: if_splits send_result.splits prod.splits)

lemma cancelAttempts_first:
  assumes "cancelAttempts net BUMP nonce i f = (out, final, tries)" and "i \<le> 8"
  shows "tries \<noteq> [] \<and> tries ! 0 = \<lparr> tryNo = i, atFees = f, answer = net nonce i \<rparr>"
  using assms(1)
  by (cases rule: cancelAttempts_cases) (use assms(2) in auto)

lemma cancelAttempts_past: "8 < i \<Longrightarrow> cancelAttempts net BUMP nonce i f = (MaxRetriesReached, f, [])"
  by (subst cancelAttempts.simps) simp

lemma cancelAttempts_trace:
  assumes "cancelAttempts net BUMP nonce i f = (out, final, tries)" and "k < length tries"
  shows "tryNo (tries ! k) = i + k \<and> i + k \<le> 8 \<and> answer (tries ! k) = net nonce (i + k)
    \<and> (answer (tries ! k) = Receipt \<longrightarrow>
          length tries = Suc k \<and> out = GotReceipt \<and> final = atFees (tries ! k))
    \<and> (\<forall>e. answer (tries ! k) = Rejected e \<longrightarrow>
          (saysResolved (toLowerCase (errorText e)) \<longrightarrow>
             length tries = Suc k \<and> out = AlreadyResolved \<and> final = atFees (tries ! k))
        \<and> (\<not> saysResolved (toLowerCase (errorText e))
             \<and> saysUnderpriced (toLowerCase (errorText e)) \<and> i + k < 8 \<longrightarrow>
             Suc k < length tries
             \<and> atFees (tries ! Suc k) = bumpFees BUMP (atFees (tries ! k)))
        \<and> (\<not> saysResolved (toLowerCase (errorText e))
             \<and> saysUnderpriced (toLowerCase (errorText e)) \<and> i + k = 8 \<longrightarrow>
             length tries = Suc k \<and> out = MaxRetriesReached
             \<and> final = bumpFees BUMP (atFees (tries ! k)))
        \<and> (\<not> saysResolved (toLowerCase (errorText e))
             \<and> \<not> saysUnderpriced (toLowerCase (errorText e)) \<longrightarrow>
             length tries = Suc k \<and> out = LoggedFailure \<and> final = atFees (tries ! k)))"
  using assms
proof (induction k arbitrary: i f tries)
  case 0
  from "0.prems"(1) show ?case
  proof (cases rule: cancelAttempts_cases)
    case past
    with "0.prems"(2) show ?thesis by simp
  next
    case receipt
    then show ?thesis by simp
  next
    case (resolved e)
    then show ?thesis by simp
  next
    case (retry e rest)
    show ?thesis
    proof (cases "i < 8")
      case True
      then have "i + 1 \<le> 8" by simp
      from cancelAttempts_first [OF retry(5) this] retry True show ?thesis by auto
    next
      case False
      with retry(1) have "i = 8" by simp
      with retry(5) have "out = MaxRetriesReached" "final = bumpFees BUMP f" "rest = []"
        by (simp_all add: cancelAttempts_past)
      with retry \<open>i = 8\<close> show ?thesis by simp
    qed
  next
    case (failure e)
    then show ?thesis by simp
  qed
next
  case (Suc k)
  from Suc.prems(1) show ?case
  proof (cases rule: cancelAttempts_cases)
    case (retry e rest)
    from Suc.prems(2) retry(6) have "k < length rest" by simp
    from Suc.IH [OF retry(5) this] retry(6) show ?thesis by auto
  qed (use Suc.prems(2) in simp_all)
qed


lemma toFixed6_nonneg: "0 \<le> x \<Longrightarrow> 0 \<le> toFixed6 x"
  by (simp add: toFixed6_def)

lemma toFixed6_mono: "0 \<le> x \<Longrightarrow> x \<le> y \<Longrightarrow> toFixed6 x \<le> toFixed6 y"
proof -
  assume "0 \<le> x" and "x \<le> y"
  then have "\<lfloor>x * 10 ^ 6 + 1 / 2\<rfloor> \<le> \<lfloor>y * 10 ^ 6 + 1 / 2\<rfloor>"
    by (intro floor_mono) simp
  then have "(of_int \<lfloor>x * 10 ^ 6 + 1 / 2\<rfloor> :: real) \<le> of_int \<lfloor>y * 10 ^ 6 + 1 / 2\<rfloor>"
    by simp
  then have "(of_int \<lfloor>x * 10 ^ 6 + 1 / 2\<rfloor> :: real) / 10 ^ 6
      \<le> of_int \<lfloor>y * 10 ^ 6 + 1 / 2\<rfloor> / 10 ^ 6"
    by (rule divide_right_mono) simp
  with \<open>0 \<le> x\<close> \<open>x \<le> y\<close> show ?thesis by (simp add: toFixed6_def)
qed

lemma toFixed6_idem: "0 \<le> x \<Longrightarrow> toFixed6 (toFixed6 x) = toFixed6 x"
proof -
  assume "0 \<le> x"
  define n where "n = \<lfloor>x * 10 ^ 6 + 1 / 2\<rfloor>"
  have "0 \<le> n" using \<open>0 \<le> x\<close> by (simp add: n_def)
  have fx: "toFixed6 x = of_int n / 10 ^ 6" using \<open>0 \<le> x\<close> by (simp add: toFixed6_def n_def)
  have "\<lfloor>(of_int n :: real) + 1 / 2\<rfloor> = n" by (rule floor_unique) simp_all
  then have "toFixed6 (of_int n / 10 ^ 6) = of_int n / 10 ^ 6"
    using \<open>0 \<le> n\<close> by (simp add: toFixed6_def)
  then show ?thesis by (simp only: fx)
qed

lemma grows_by_factor: "1 \<le> b \<Longrightarrow> 0 \<le> a \<Longrightarrow> a \<le> a * (b::real)"
  by (simp add: mult_le_cancel_left1)

lemma bumpFees_settled:
  assumes "1 \<le> BUMP" and "0 \<le> TIP_gwei f" and "toFixed6 (TIP_gwei f) = TIP_gwei f"
    and "toFixed6 (MAX_gwei f) = MAX_gwei f"
  shows "0 \<le> TIP_gwei (bumpFees BUMP f)"
    and "toFixed6 (TIP_gwei (bumpFees BUMP f)) = TIP_gwei (bumpFees BUMP f)"
    and "toFixed6 (MAX_gwei (bumpFees BUMP f)) = MAX_gwei (bumpFees BUMP f)"
    and "TIP_gwei f \<le> TIP_gwei (bumpFees BUMP f)"
    and "max (MAX_gwei f) (TIP_gwei f)
           \<le> max (MAX_gwei (bumpFees BUMP f)) (TIP_gwei (bumpFees BUMP f))"
proof -
  let ?t = "toFixed6 (TIP_gwei f * BUMP)"
  have tb: "TIP_gwei f \<le> TIP_gwei f * BUMP"
    by (rule grows_by_factor [OF assms(1,2)])
  from assms(2) tb have tb0: "0 \<le> TIP_gwei f * BUMP" by (rule order_trans)
  show t0: "0 \<le> TIP_gwei (bumpFees BUMP f)"
    using tb0 by (simp add: bumpFees_def Let_def toFixed6_nonneg)
  show "toFixed6 (TIP_gwei (bumpFees BUMP f)) = TIP_gwei (bumpFees BUMP f)"
    using tb0 by (simp add: bumpFees_def Let_def toFixed6_idem)
  have t: "TIP_gwei f \<le> ?t"
    using toFixed6_mono [OF assms(2) tb] assms(3) by simp
  then show "TIP_gwei f \<le> TIP_gwei (bumpFees BUMP f)"
    by (simp add: bumpFees_def Let_def)
  let ?m = "max (MAX_gwei f) ?t"
  have m0: "0 \<le> ?m" using t assms(2) by simp
  have mb: "?m \<le> ?m * BUMP" by (rule grows_by_factor [OF assms(1) m0])
  from m0 mb have mb0: "0 \<le> ?m * BUMP" by (rule order_trans)
  show "toFixed6 (MAX_gwei (bumpFees BUMP f)) = MAX_gwei (bumpFees BUMP f)"
    using mb0 by (simp add: bumpFees_def Let_def toFixed6_idem)
  let ?s = "max (MAX_gwei f) (TIP_gwei f)"
  have s0: "0 \<le> ?s" using assms(2) by simp
  have ss: "toFixed6 ?s = ?s" using assms(3,4) by (simp add: max_def)
  have "?s \<le> ?m" using t by simp
  from this mb have "?s \<le> ?m * BUMP" by (rule order_trans)
  from toFixed6_mono [OF s0 this] ss have "?s \<le> toFixed6 (?m * BUMP)" by simp
  also have "toFixed6 (?m * BUMP) \<le> max (toFixed6 (?m * BUMP)) ?t" by (rule max.cobounded1)
  finally show "?s \<le> max (MAX_gwei (bumpFees BUMP f)) (TIP_gwei (bumpFees BUMP f))"
    by (simp only: bumpFees_def Let_def fees.simps)
qed

lemma cancelAttempts_step:
  assumes "cancelAttempts net BUMP nonce i f = (out, final, tries)" and "Suc k < length tries"
  shows "atFees (tries ! Suc k) = bumpFees BUMP (atFees (tries ! k))"
  using assms
proof (induction k arbitrary: i f tries)
  case 0
  from "0.prems"(1) show ?case
  proof (cases rule: cancelAttempts_cases)
    case (retry e rest)
    with "0.prems"(2) have "rest \<noteq> []" by auto
    with retry(5) have "i + 1 \<le> 8"
      using cancelAttempts_past [of "i + 1" net BUMP nonce "bumpFees BUMP f"] by fastforce
    from cancelAttempts_first [OF retry(5) this] retry(6) show ?thesis by simp
  qed (use "0.prems"(2) in simp_all)
next
  case (Suc k)
  from Suc.prems(1) show ?case
  proof (cases rule: cancelAttempts_cases)
    case (retry e rest)
    from Suc.prems(2) retry(6) have "Suc k < length rest" by simp
    from Suc.IH [OF retry(5) this] retry(6) show ?thesis by simp
  qed (use Suc.prems(2) in simp_all)
qed


lemma bumpFees_keeps_settled: "1 \<le> BUMP \<Longrightarrow> settledFees f \<Longrightarrow> settledFees (bumpFees BUMP f)"
  using bumpFees_settled(1-3) [of BUMP f] by (simp add: settledFees_def)

lemma cancelAttempts_settled:
  assumes "cancelAttempts net BUMP nonce i f = (out, final, tries)"
    and "1 \<le> BUMP" and "settledFees f" and "k < length tries"
  shows "settledFees (atFees (tries ! k)) \<and> TIP_gwei f \<le> TIP_gwei (atFees (tries ! k))
    \<and> max (MAX_gwei f) (TIP_gwei f)
        \<le> max (MAX_gwei (atFees (tries ! k))) (TIP_gwei (atFees (tries ! k)))"
  using assms(4)
proof (induction k)
  case 0
  then have "tries \<noteq> []" by auto
  with assms(1) have "i \<le> 8"
    using cancelAttempts_past [of i net BUMP nonce f] by fastforce
  from cancelAttempts_first [OF assms(1) this] assms(3) show ?case by simp
next
  case (Suc k)
  then have k: "k < length tries" by simp
  note ih = Suc.IH [OF k]
  from ih have st: "settledFees (atFees (tries ! k))" by simp
  have step: "atFees (tries ! Suc k) = bumpFees BUMP (atFees (tries ! k))"
    by (rule cancelAttempts_step [OF assms(1) Suc.prems])
  from st have a: "0 \<le> TIP_gwei (atFees (tries ! k))"
    "toFixed6 (TIP_gwei (atFees (tries ! k))) = TIP_gwei (atFees (tries ! k))"
    "toFixed6 (MAX_gwei (atFees (tries ! k))) = MAX_gwei (atFees (tries ! k))"
    by (simp_all add: settledFees_def)
  note b = bumpFees_settled [OF assms(2) a]
  have "settledFees (atFees (tries ! Suc k))"
    unfolding step by (rule bumpFees_keeps_settled [OF assms(2) st])
  moreover have "TIP_gwei f \<le> TIP_gwei (atFees (tries ! Suc k))"
    unfolding step using ih b(4) by (blast intro: order_trans)
  moreover have "max (MAX_gwei f) (TIP_gwei f)
      \<le> max (MAX_gwei (atFees (tries ! Suc k))) (TIP_gwei (atFees (tries ! Suc k)))"
    unfolding step using ih b(5) by (blast intro: order_trans)
  ultimately show ?case by simp
qed

lemma cancelAttempts_ladder:
  assumes "cancelAttempts net BUMP nonce i f = (out, final, tries)"
    and "1 \<le> BUMP" and "settledFees f" and "j \<le> k" and "k < length tries"
  shows "TIP_gwei (atFees (tries ! j)) \<le> TIP_gwei (atFees (tries ! k))
    \<and> max (MAX_gwei (atFees (tries ! j))) (TIP_gwei (atFees (tries ! j)))
        \<le> max (MAX_gwei (atFees (tries ! k))) (TIP_gwei (atFees (tries ! k)))"
  using assms(4,5)
proof (induction k)
  case 0
  then show ?case by simp
next
  case (Suc k)
  show ?case
  proof (cases "j = Suc k")
    case True
    then show ?thesis by simp
  next
    case False
    with Suc.prems have jk: "j \<le> k" and k: "k < length tries" by simp_all
    note ih = Suc.IH [OF jk k]
    from cancelAttempts_settled [OF assms(1-3) k]
    have a: "0 \<le> TIP_gwei (atFees (tries ! k))"
      "toFixed6 (TIP_gwei (atFees (tries ! k))) = TIP_gwei (atFees (tries ! k))"
      "toFixed6 (MAX_gwei (atFees (tries ! k))) = MAX_gwei (atFees (tries ! k))"
      by (simp_all add: settledFees_def)
    note b = bumpFees_settled [OF assms(2) a]
    have step: "atFees (tries ! Suc k) = bumpFees BUMP (atFees (tries ! k))"
      by (rule cancelAttempts_step [OF assms(1) Suc.prems(2)])
    from ih b(4,5) show ?thesis unfolding step
      by (blast intro: order_trans)
  qed
qed

lemma cancelAttempts_final:
  assumes "cancelAttempts net BUMP nonce i f = (out, final, tries)" and "tries \<noteq> []"
  shows "final = atFees (last tries) \<or> final = bumpFees BUMP (atFees (last tries))"
proof -
  from assms(2) have k: "length tries - 1 < length tries" by simp
  have l: "last tries = tries ! (length tries - 1)" using assms(2) by (rule last_conv_nth)
  note tr = cancelAttempts_trace [OF assms(1) k]
  have n: "\<not> Suc (length tries - 1) < length tries" by simp
  show ?thesis
  proof (cases "answer (tries ! (length tries - 1))")
    case Receipt
    with tr l show ?thesis by simp
  next
    case (Rejected e)
    with tr have r: "(saysResolved (toLowerCase (errorText e)) \<longrightarrow>
             final = atFees (tries ! (length tries - 1)))
        \<and> (\<not> saysResolved (toLowerCase (errorText e))
             \<and> saysUnderpriced (toLowerCase (errorText e)) \<and> i + (length tries - 1) < 8 \<longrightarrow>
             Suc (length tries - 1) < length tries)
        \<and> (\<not> saysResolved (toLowerCase (errorText e))
             \<and> saysUnderpriced (toLowerCase (errorText e)) \<and> i + (length tries - 1) = 8 \<longrightarrow>
             final = bumpFees BUMP (atFees (tries ! (length tries - 1))))
        \<and> (\<not> saysResolved (toLowerCase (errorText e))
             \<and> \<not> saysUnderpriced (toLowerCase (errorText e)) \<longrightarrow>
             final = atFees (tries ! (length tries - 1)))"
      and le: "i + (length tries - 1) \<le> 8"
      by simp_all
    from r n le show ?thesis unfolding l
      by (cases "i + (length tries - 1) = 8") auto
  qed
qed

lemma cancelNonce_nonempty:
  assumes "cancelNonce net BUMP nonce f = (out, final, tries)"
  shows "tries \<noteq> [] \<and> atFees (tries ! 0) = f \<and> tryNo (tries ! 0) = 1"
  using cancelAttempts_first [OF assms [unfolded cancelNonce_def]] by simp

lemma cancelNonce_keeps_settled:
  assumes "cancelNonce net BUMP nonce f = (out, final, tries)"
    and "1 \<le> BUMP" and "settledFees f"
  shows "settledFees final \<and> TIP_gwei f \<le> TIP_gwei final
    \<and> max (MAX_gwei f) (TIP_gwei f) \<le> max (MAX_gwei final) (TIP_gwei final)
    \<and> (\<forall>k < length tries. TIP_gwei (atFees (tries ! k)) \<le> TIP_gwei final
          \<and> max (MAX_gwei (atFees (tries ! k))) (TIP_gwei (atFees (tries ! k)))
              \<le> max (MAX_gwei final) (TIP_gwei final))"
proof -
  from cancelNonce_nonempty [OF assms(1)] have ne: "tries \<noteq> []" by simp
  then have k: "length tries - 1 < length tries" by simp
  have l: "last tries = tries ! (length tries - 1)" using ne by (rule last_conv_nth)
  note run = assms(1) [unfolded cancelNonce_def]
  note lastk = cancelAttempts_settled [OF run assms(2,3) k]
  let ?z = "atFees (last tries)"
  from lastk l have z: "settledFees ?z" "TIP_gwei f \<le> TIP_gwei ?z"
    "max (MAX_gwei f) (TIP_gwei f) \<le> max (MAX_gwei ?z) (TIP_gwei ?z)"
    by simp_all
  from z(1) have a: "0 \<le> TIP_gwei ?z" "toFixed6 (TIP_gwei ?z) = TIP_gwei ?z"
    "toFixed6 (MAX_gwei ?z) = MAX_gwei ?z"
    by (simp_all add: settledFees_def)
  note b = bumpFees_settled [OF assms(2) a]
  have fin: "settledFees final \<and> TIP_gwei ?z \<le> TIP_gwei final
      \<and> max (MAX_gwei ?z) (TIP_gwei ?z) \<le> max (MAX_gwei final) (TIP_gwei final)"
    using cancelAttempts_final [OF run ne]
  proof
    assume "final = ?z"
    with z(1) show ?thesis by simp
  next
    assume "final = bumpFees BUMP ?z"
    with b bumpFees_keeps_settled [OF assms(2) z(1)] show ?thesis by simp
  qed
  have upto: "TIP_gwei (atFees (tries ! j)) \<le> TIP_gwei ?z
      \<and> max (MAX_gwei (atFees (tries ! j))) (TIP_gwei (atFees (tries ! j)))
          \<le> max (MAX_gwei ?z) (TIP_gwei ?z)" if "j < length tries" for j
  proof -
    from that have "j \<le> length tries - 1" by simp
    from cancelAttempts_ladder [OF run assms(2,3) this k] show ?thesis
      by (simp only: l)
  qed
  from fin z upto show ?thesis
    by (blast intro: order_trans)
qed


lemma underpricedError_says:
  "saysUnderpriced (toLowerCase (errorText underpricedError))"
  "\<not> saysResolved (toLowerCase (errorText underpricedError))"
  by (simp_all add: underpricedError_def errorText_def toLowerCase_def lowerChar_def
      saysUnderpriced_def saysResolved_def)

lemma nonceTooLowError_says:
  "saysResolved (toLowerCase (errorText nonceTooLowError))"
  by (simp add: nonceTooLowError_def errorText_def toLowerCase_def lowerChar_def saysResolved_def)

lemmas cancel_run_defs =
  cancelNonce_def cancelAttempts.simps attempted_def Let_def bumpFees_def toFixed6_def
  underpriced_def nonceTooLow_def underpricedError_says nonceTooLowError_says








lemma sweepFrom_cases:
  assumes "sweepFrom net BUMP latest TO n f = (final, runs)"
  obtains (over) "TO < n" "final = f" "runs = []"
  | (skipped) "n \<le> TO" "n < latest"
      "sweepFrom net BUMP latest TO (n + 1) f = (final, runs)"
  | (cancelled) out f' tries rest where "n \<le> TO" "latest \<le> n"
      "cancelNonce net BUMP n f = (out, f', tries)"
      "sweepFrom net BUMP latest TO (n + 1) f' = (final, rest)"
      "runs = \<lparr> forNonce = n, startFees = f, endFees = f', outcome = out,
                attempts = tries \<rparr> # rest"
  using assms
  by (subst (asm) sweepFrom.simps) (auto split: if_splits prod.splits)

lemma sweepFrom_chain:
  assumes "sweepFrom net BUMP latest TO n f = (final, runs)"
  shows "(runs = [] \<longrightarrow> final = f)
    \<and> (runs \<noteq> [] \<longrightarrow> startFees (runs ! 0) = f \<and> final = endFees (last runs)
          \<and> forNonce (runs ! 0) = max n latest)
    \<and> (\<forall>j. Suc j < length runs \<longrightarrow>
          startFees (runs ! Suc j) = endFees (runs ! j)
          \<and> forNonce (runs ! Suc j) = forNonce (runs ! j) + 1)
    \<and> (\<forall>r \<in> set runs. latest \<le> forNonce r \<and> n \<le> forNonce r \<and> forNonce r \<le> TO
          \<and> cancelNonce net BUMP (forNonce r) (startFees r)
              = (outcome r, endFees r, attempts r))"
  using assms
proof (induction net BUMP latest TO n f arbitrary: final runs rule: sweepFrom.induct)
  case (1 net BUMP latest TO n f)
  from "1.prems" show ?case
  proof (cases rule: sweepFrom_cases)
    case over
    then show ?thesis by simp
  next
    case skipped
    from skipped(2) have "max (n + 1) latest = max n latest" by simp
    with "1.IH"(1) [OF skipped(1,2,3)] show ?thesis
      by auto
  next
    case (cancelled out f' tries rest)
    from cancelled(2) have nl: "\<not> n < latest" by simp
    note ih = "1.IH"(2) [OF cancelled(1) nl cancelled(3) [symmetric] refl cancelled(4)]
    from ih cancelled(2)
    have first: "rest \<noteq> [] \<longrightarrow> startFees (rest ! 0) = f' \<and> forNonce (rest ! 0) = n + 1
        \<and> final = endFees (last rest)"
      and none: "rest = [] \<longrightarrow> final = f'"
      and later: "\<forall>j. Suc j < length rest \<longrightarrow>
          startFees (rest ! Suc j) = endFees (rest ! j)
          \<and> forNonce (rest ! Suc j) = forNonce (rest ! j) + 1"
      and each: "\<forall>r \<in> set rest. latest \<le> forNonce r \<and> n \<le> forNonce r \<and> forNonce r \<le> TO
          \<and> cancelNonce net BUMP (forNonce r) (startFees r)
              = (outcome r, endFees r, attempts r)"
      by auto
    have adj: "startFees (runs ! Suc j) = endFees (runs ! j)
        \<and> forNonce (runs ! Suc j) = forNonce (runs ! j) + 1" if "Suc j < length runs" for j
    proof (cases j)
      case 0
      with that cancelled(5) have "rest \<noteq> []" by auto
      with first 0 cancelled(5) show ?thesis by simp
    next
      case (Suc j')
      with that cancelled(5) have "Suc j' < length rest" by simp
      with later Suc cancelled(5) show ?thesis by simp
    qed
    have head: "startFees (runs ! 0) = f \<and> final = endFees (last runs)
        \<and> forNonce (runs ! 0) = max n latest"
      using first none cancelled(2,5) by (cases "rest = []") simp_all
    from head adj each cancelled(1,2,3,5) show ?thesis by auto
  qed
qed


lemma sweepFrom_run:
  assumes "sweepFrom net BUMP latest TO n f = (final, runs)" and "i < length runs"
  shows "cancelNonce net BUMP (forNonce (runs ! i)) (startFees (runs ! i))
    = (outcome (runs ! i), endFees (runs ! i), attempts (runs ! i))"
proof -
  from assms(2) have "runs ! i \<in> set runs" by (rule nth_mem)
  with sweepFrom_chain [OF assms(1)] show ?thesis by blast
qed

lemma sweepFrom_adjacent:
  assumes "sweepFrom net BUMP latest TO n f = (final, runs)" and "Suc j < length runs"
  shows "startFees (runs ! Suc j) = endFees (runs ! j)"
    and "forNonce (runs ! Suc j) = forNonce (runs ! j) + 1"
  using sweepFrom_chain [OF assms(1)] assms(2) by blast+

lemma sweepFrom_start:
  assumes "sweepFrom net BUMP latest TO n f = (final, runs)" and "0 < length runs"
  shows "startFees (runs ! 0) = f"
  using sweepFrom_chain [OF assms(1)] assms(2) by auto

lemma sweepFrom_settled:
  assumes "sweepFrom net BUMP latest TO n f = (final, runs)"
    and "1 \<le> BUMP" and "settledFees f" and "i < length runs"
  shows "settledFees (startFees (runs ! i))"
  using assms(4)
proof (induction i)
  case 0
  with sweepFrom_start [OF assms(1)] assms(3) show ?case by simp
next
  case (Suc i)
  then have i: "i < length runs" by simp
  note adj = sweepFrom_adjacent(1) [OF assms(1) Suc.prems]
  note run = sweepFrom_run [OF assms(1) i]
  from cancelNonce_keeps_settled [OF run assms(2) Suc.IH [OF i]] adj show ?case by simp
qed

lemma sweepFrom_never_lower:
  assumes "sweepFrom net BUMP latest TO n f = (final, runs)"
    and "1 \<le> BUMP" and "settledFees f" and "i \<le> j" and "Suc j < length runs"
    and "k < length (attempts (runs ! i))"
  shows "TIP_gwei (atFees (attempts (runs ! i) ! k)) \<le> TIP_gwei (startFees (runs ! Suc j))
    \<and> max (MAX_gwei (atFees (attempts (runs ! i) ! k))) (TIP_gwei (atFees (attempts (runs ! i) ! k)))
        \<le> max (MAX_gwei (startFees (runs ! Suc j))) (TIP_gwei (startFees (runs ! Suc j)))"
  using assms(4,5)
proof (induction j)
  case 0
  then have i0: "i = 0" and l: "0 < length runs" by auto
  note adj = sweepFrom_adjacent(1) [OF assms(1) "0.prems"(2)]
  note run = sweepFrom_run [OF assms(1) l]
  from cancelNonce_keeps_settled [OF run assms(2) sweepFrom_settled [OF assms(1-3) l]]
    assms(6) i0 adj
  show ?case by simp
next
  case (Suc j)
  then have j: "Suc j < length runs" by simp
  note adj = sweepFrom_adjacent(1) [OF assms(1) Suc.prems(2)]
  note run = sweepFrom_run [OF assms(1) j]
  note keep = cancelNonce_keeps_settled [OF run assms(2) sweepFrom_settled [OF assms(1-3) j]]
  show ?case
  proof (cases "i = Suc j")
    case True
    with keep assms(6) adj show ?thesis by simp
  next
    case False
    with Suc.prems(1) have "i \<le> j" by simp
    from Suc.IH [OF this j] keep adj show ?thesis
      by (auto intro: order_trans)
  qed
qed

text \<open>
  C10. \<open>runs\<close> lists the nonces of a sweep that were handed to \<^verbatim>\<open>cancelNonce\<close>, in
  order, each with the fees before its first attempt, the fees after its last and its
  attempts. Two neighbours in the list are consecutive nonces; the later one is run by
  \<^verbatim>\<open>cancelNonce\<close> from the fees the earlier one ended with, and its first attempt is
  sent with exactly those: tip \<^verbatim>\<open>TIP\<close>, max fee \<^verbatim>\<open>Math.max(MAX, TIP)\<close>. With a
  multiplier of at least 1 and settled initial fees, no attempt of any earlier nonce of
  the sweep was sent with a higher tip or max fee than that first attempt.
\<close>

theorem fees_carry_over:
  assumes "cancelRange net BUMP FROM TO latest f = Inr (final, runs)"
    and "Suc j < length runs"
  shows "forNonce (runs ! Suc j) = forNonce (runs ! j) + 1
    \<and> cancelNonce net BUMP (forNonce (runs ! j)) (startFees (runs ! j))
        = (outcome (runs ! j), endFees (runs ! j), attempts (runs ! j))
    \<and> cancelNonce net BUMP (forNonce (runs ! Suc j)) (endFees (runs ! j))
        = (outcome (runs ! Suc j), endFees (runs ! Suc j), attempts (runs ! Suc j))
    \<and> attempts (runs ! Suc j) \<noteq> []
    \<and> atFees (attempts (runs ! Suc j) ! 0) = endFees (runs ! j)
    \<and> sentTip (attempts (runs ! Suc j) ! 0) = TIP_gwei (endFees (runs ! j))
    \<and> sentMaxFee (attempts (runs ! Suc j) ! 0)
        = max (MAX_gwei (endFees (runs ! j))) (TIP_gwei (endFees (runs ! j)))
    \<and> (1 \<le> BUMP \<and> settledFees f \<longrightarrow>
         (\<forall>i k. i \<le> j \<and> k < length (attempts (runs ! i)) \<longrightarrow>
            sentTip (attempts (runs ! i) ! k) \<le> sentTip (attempts (runs ! Suc j) ! 0)
            \<and> sentMaxFee (attempts (runs ! i) ! k) \<le> sentMaxFee (attempts (runs ! Suc j) ! 0)))"
proof -
  from assms(1) obtain a b where sw: "sweepFrom net BUMP latest b a f = (final, runs)"
    by (auto simp: cancelRange_def split: option.splits)
  from assms(2) have j: "j < length runs" by simp
  note adj = sweepFrom_adjacent(1) [OF sw assms(2)]
  note nxt = sweepFrom_adjacent(2) [OF sw assms(2)]
  note run = sweepFrom_run [OF sw j]
  note run' = sweepFrom_run [OF sw assms(2)]
  from cancelNonce_nonempty [OF run'] adj
  have first: "attempts (runs ! Suc j) \<noteq> []"
    "atFees (attempts (runs ! Suc j) ! 0) = endFees (runs ! j)"
    by simp_all
  have raise: "sentTip (attempts (runs ! i) ! k) \<le> sentTip (attempts (runs ! Suc j) ! 0)
      \<and> sentMaxFee (attempts (runs ! i) ! k) \<le> sentMaxFee (attempts (runs ! Suc j) ! 0)"
    if "1 \<le> BUMP" "settledFees f" "i \<le> j" "k < length (attempts (runs ! i))" for i k
    using sweepFrom_never_lower [OF sw that(1,2,3) assms(2) that(4)] first(2) adj
    by (simp add: sentTip_def sentMaxFee_def)
  from nxt run run' adj first raise show ?thesis
    by (simp add: sentTip_def sentMaxFee_def)
qed

theorem fees_carry_over_witness:
  "cancelRange underpricedTwiceAt10 (5 / 4) (Some 8) (Some 11) 10 (initialFees None None) =
    Inr (\<lparr> TIP_gwei = 375 / 8, MAX_gwei = 375 / 4 \<rparr>,
     [ \<lparr> forNonce = 10, startFees = \<lparr> TIP_gwei = 30, MAX_gwei = 60 \<rparr>,
         endFees = \<lparr> TIP_gwei = 375 / 8, MAX_gwei = 375 / 4 \<rparr>, outcome = GotReceipt,
         attempts =
           [ \<lparr> tryNo = 1, atFees = \<lparr> TIP_gwei = 30, MAX_gwei = 60 \<rparr>, answer = underpriced \<rparr>,
             \<lparr> tryNo = 2, atFees = \<lparr> TIP_gwei = 75 / 2, MAX_gwei = 75 \<rparr>, answer = underpriced \<rparr>,
             \<lparr> tryNo = 3, atFees = \<lparr> TIP_gwei = 375 / 8, MAX_gwei = 375 / 4 \<rparr>,
               answer = Receipt \<rparr> ] \<rparr>,
       \<lparr> forNonce = 11, startFees = \<lparr> TIP_gwei = 375 / 8, MAX_gwei = 375 / 4 \<rparr>,
         endFees = \<lparr> TIP_gwei = 375 / 8, MAX_gwei = 375 / 4 \<rparr>, outcome = GotReceipt,
         attempts =
           [ \<lparr> tryNo = 1, atFees = \<lparr> TIP_gwei = 375 / 8, MAX_gwei = 375 / 4 \<rparr>,
               answer = Receipt \<rparr> ] \<rparr> ])
   \<and> (30::real) \<le> 375 / 8 \<and> (60::real) \<le> 375 / 4"
proof -
  have sw: "cancelRange underpricedTwiceAt10 (5 / 4) (Some 8) (Some 11) 10 (initialFees None None) =
    Inr (\<lparr> TIP_gwei = 375 / 8, MAX_gwei = 375 / 4 \<rparr>,
     [ \<lparr> forNonce = 10, startFees = \<lparr> TIP_gwei = 30, MAX_gwei = 60 \<rparr>,
         endFees = \<lparr> TIP_gwei = 375 / 8, MAX_gwei = 375 / 4 \<rparr>, outcome = GotReceipt,
         attempts =
           [ \<lparr> tryNo = 1, atFees = \<lparr> TIP_gwei = 30, MAX_gwei = 60 \<rparr>, answer = underpriced \<rparr>,
             \<lparr> tryNo = 2, atFees = \<lparr> TIP_gwei = 75 / 2, MAX_gwei = 75 \<rparr>, answer = underpriced \<rparr>,
             \<lparr> tryNo = 3, atFees = \<lparr> TIP_gwei = 375 / 8, MAX_gwei = 375 / 4 \<rparr>,
               answer = Receipt \<rparr> ] \<rparr>,
       \<lparr> forNonce = 11, startFees = \<lparr> TIP_gwei = 375 / 8, MAX_gwei = 375 / 4 \<rparr>,
         endFees = \<lparr> TIP_gwei = 375 / 8, MAX_gwei = 375 / 4 \<rparr>, outcome = GotReceipt,
         attempts =
           [ \<lparr> tryNo = 1, atFees = \<lparr> TIP_gwei = 375 / 8, MAX_gwei = 375 / 4 \<rparr>,
               answer = Receipt \<rparr> ] \<rparr> ])"
    by (simp add: cancelRange_def initialFees_def sweepFrom.simps cancel_run_defs
        underpricedTwiceAt10_def)
  have ok: "(1::real) \<le> 5 / 4 \<and> settledFees (initialFees None None)"
    by (simp add: settledFees_def initialFees_def toFixed6_def)
  from fees_carry_over [OF sw, of 0] ok
  have "(30::real) \<le> 375 / 8 \<and> (60::real) \<le> 375 / 4"
    by (simp add: sentTip_def sentMaxFee_def)
  with sw show ?thesis by simp
qed

end
